theory Spec2Isabelle
  imports Complex_Main "HOL-Library.Sublist"
begin

section \<open>Data model of \<open>utils/map_repo_urls.py\<close>\<close>

text \<open>
  Python strings are modelled as \<open>string\<close>; each \<open>char\<close> stands for one code point
  below 256.  The value returned by \<open>json.load\<close> is an arbitrary JSON value: Python is
  dynamically typed, so a metadata file may hold any of them, and every operation of the
  script that raises on an unexpected type is a branch of the model.  \<open>JObj kvs\<close> is the
  dict in which a key has the value \<open>map_of kvs\<close> gives it.
\<close>

datatype pyfloat = Finite rat | Infinity bool | NaN

datatype json =
    JNull
  | JBool bool
  | JInt int
  | JFloat pyfloat
  | JStr string
  | JArr "json list"
  | JObj "(string \<times> json) list"

text \<open>
  The exceptions a run can end with.  \<open>OSError\<close> is raised by \<open>open\<close> and by a shell
  that cannot be started, \<open>JSONDecodeError\<close> by the JSON parser, \<open>ValueError\<close> by
  \<open>subprocess.run\<close> for a command that holds U+0000; \<open>RuntimeError\<close> is what a
  generator body that raises \<open>StopIteration\<close> is turned into under PEP 479.  \<open>Other\<close>
  names any further exception class the library may raise.
\<close>

datatype py_error =
    OSError | JSONDecodeError | AttributeError | TypeError | RuntimeError
  | ValueError | UnicodeDecodeError | UnicodeEncodeError | RecursionError | MemoryError
  | Other string

text \<open>
  What the process does that can be observed from outside, in order.  A child process
  shows twice: when the shell is started on the command, and when it has terminated.
\<close>

datatype event =
    Log string      \<comment> \<open>a WARNING record handed to the logging stream\<close>
  | Print string    \<comment> \<open>a line written by \<open>print\<close>\<close>
  | Run string      \<comment> \<open>the shell is started on a command\<close>
  | Exited int      \<comment> \<open>the child has terminated, with this exit status\<close>

text \<open>What \<open>json.load(open(path, "r"))\<close> comes to.\<close>

datatype load_result =
    CannotOpen      \<comment> \<open>\<open>open\<close> raises \<open>OSError\<close>: no such file, no permission, a directory\<close>
  | NotJSON         \<comment> \<open>the text is not JSON: the parser raises \<open>JSONDecodeError\<close>\<close>
  | Fails py_error  \<comment> \<open>any other exception on the way: \<open>UnicodeDecodeError\<close> for bytes that
                        are no text, \<open>RecursionError\<close> for nesting too deep, \<open>ValueError\<close>
                        for a path that holds U+0000 or a number too long, ...\<close>
  | Parsed json     \<comment> \<open>the value returned\<close>

text \<open>What the operating system does with a shell command without U+0000.\<close>

datatype spawn_result =
    CannotStart     \<comment> \<open>no shell, or the command is too long: \<open>OSError\<close>, no child\<close>
  | Terminated int  \<comment> \<open>the child ran and ended with this exit status\<close>

text \<open>
  What the script takes from its surroundings: the interpreter's treatment of
  \<open>StopIteration\<close> raised inside a generator (\<open>generator_stop\<close>: PEP 479, the default
  from Python 3.7 on; before that the generator just ends), the file system together
  with the JSON parser, \<open>str\<close> of a value that is not already a string, what becomes
  of a shell command, and whether a line can be written to standard output (\<open>None\<close>)
  or the write raises (closed or broken stream, a character the stream cannot encode).
\<close>

record env =
  generator_stop :: bool
  load :: "string \<Rightarrow> load_result"
  str_of :: "json \<Rightarrow> string"
  spawn :: "string \<Rightarrow> spawn_result"
  stdout_write :: "string \<Rightarrow> py_error option"

text \<open>The namespace returned by \<open>parse_args\<close>; \<open>cmd\<close> is \<open>None\<close> when \<open>-c\<close> is not given.\<close>

record args =
  cmd :: "string option"
  dry_run :: bool
  quiet :: bool
  json_files :: "string list"

text \<open>A computation: the events it caused and the exception it raised, if any.\<close>

type_synonym result = "event list \<times> py_error option"

definition then_do :: "result \<Rightarrow> result \<Rightarrow> result" where
  "then_do r k = (case snd r of Some e \<Rightarrow> r | None \<Rightarrow> (fst r @ fst k, snd k))"

text \<open>
  A generator, run to its end: what it does between two requests for the next value
  (it warns or it yields), and how it ends (normally, or by an exception).
\<close>

datatype gen_item = Warn string | Yield json

type_synonym generator = "gen_item list \<times> py_error option"

section \<open>Python primitives used by the script\<close>

text \<open>Truth value of an object, as tested by \<open>not x\<close> and \<open>x or y\<close>.\<close>

fun truthy :: "json \<Rightarrow> bool" where
  "truthy JNull = False"
| "truthy (JBool b) = b"
| "truthy (JInt n) = (n \<noteq> 0)"
| "truthy (JFloat f) = (f \<noteq> Finite 0)"
| "truthy (JStr s) = (s \<noteq> [])"
| "truthy (JArr xs) = (xs \<noteq> [])"
| "truthy (JObj kvs) = (kvs \<noteq> [])"

text \<open>\<open>d.get(key, default)\<close>: only a dict has the method.\<close>

fun dict_get :: "json \<Rightarrow> string \<Rightarrow> json \<Rightarrow> py_error + json" where
  "dict_get (JObj kvs) key dflt = Inr (case map_of kvs key of None \<Rightarrow> dflt | Some v \<Rightarrow> v)"
| "dict_get _ key dflt = Inl AttributeError"

text \<open>The items a \<open>for\<close> loop gets from an object; numbers, booleans and None are not iterable.\<close>

fun py_iter :: "json \<Rightarrow> py_error + json list" where
  "py_iter (JArr xs) = Inr xs"
| "py_iter (JStr s) = Inr (map (\<lambda>c. JStr [c]) s)"
| "py_iter (JObj kvs) = Inr (map JStr (remdups (map fst kvs)))"
| "py_iter _ = Inl TypeError"

text \<open>\<open>str(x)\<close>, which \<open>"{}".format(x)\<close> inserts.\<close>

definition py_str :: "env \<Rightarrow> json \<Rightarrow> string" where
  "py_str env v = (case v of JStr s \<Rightarrow> s | _ \<Rightarrow> str_of env v)"

definition digit_char :: "nat \<Rightarrow> char" where
  "digit_char d = ''0123456789abcdef'' ! d"

fun str_nat :: "nat \<Rightarrow> string" where
  "str_nat n = (if n < 10 then [digit_char n] else str_nat (n div 10) @ [digit_char (n mod 10)])"

declare str_nat.simps [simp del]

text \<open>\<open>s.replace(old, new)\<close>: a scan from the left over non-overlapping occurrences.\<close>

function str_replace :: "string \<Rightarrow> string \<Rightarrow> string \<Rightarrow> string" where
  "str_replace s old new =
     (if old = [] then new @ concat (map (\<lambda>c. c # new) s)
      else if s = [] then []
      else if prefix old s then new @ str_replace (drop (length old) s) old new
      else hd s # str_replace (tl s) old new)"
  by pat_completeness auto
termination
  by (relation "measure (\<lambda>(s, old, new). length s)") auto

declare str_replace.simps [simp del]

text \<open>
  \<open>repr\<close> of a string, as \<open>{!r}\<close> formats it: single quotes unless the string holds a
  single quote and no double quote; the quote and the backslash escaped; tab, newline
  and return by letter; every other non-printable code point as \<open>\xNN\<close>.
\<close>

definition repr_quote :: "string \<Rightarrow> char" where
  "repr_quote s =
     (if CHR 0x27 \<in> set s \<and> CHR 0x22 \<notin> set s then CHR 0x22 else CHR 0x27)"

definition printable :: "char \<Rightarrow> bool" where
  "printable c =
     (let n = (of_char c :: nat)
      in if n < 127 then 32 \<le> n else 161 \<le> n \<and> n \<noteq> 173)"

definition repr_char :: "char \<Rightarrow> char \<Rightarrow> string" where
  "repr_char q c =
     (if c = q \<or> c = CHR 0x5C then [CHR 0x5C, c]
      else if c = CHR 0x09 then [CHR 0x5C, CHR ''t'']
      else if c = CHR 0x0A then [CHR 0x5C, CHR ''n'']
      else if c = CHR 0x0D then [CHR 0x5C, CHR ''r'']
      else if printable c then [c]
      else [CHR 0x5C, CHR ''x'',
            digit_char ((of_char c :: nat) div 16), digit_char ((of_char c :: nat) mod 16)])"

definition py_repr :: "string \<Rightarrow> string" where
  "py_repr s = (let q = repr_quote s in q # concat (map (repr_char q) s) @ [q])"

text \<open>
  The logging set-up: \<open>logging.basicConfig()\<close> leaves the root logger at WARNING and
  the module's logger inherits it; \<open>logging.getLevelName("ERROR")\<close> is 40.  A record is
  handed on when its level is at least the logger's effective level.
\<close>

definition WARNING :: nat where "WARNING = 30"

definition getLevelName_ERROR :: nat where "getLevelName_ERROR = 40"

definition logger_warn :: "nat \<Rightarrow> string \<Rightarrow> event list" where
  "logger_warn level msg = (if level \<le> WARNING then [Log msg] else [])"

text \<open>\<open>raise StopIteration\<close> in the body of a generator, seen from the loop that drives it.\<close>

definition raise_StopIteration :: "env \<Rightarrow> py_error option" where
  "raise_StopIteration env = (if generator_stop env then Some RuntimeError else None)"

section \<open>The script\<close>

subsection \<open>\<open>iter_service_metadata\<close>\<close>

text \<open>
  One step of the generator is \<open>json.load(open(service_file, "r"))\<close>.  The generator is
  the list of these steps, one per file; a step that raises ends the iteration, so the
  loop that drives it never asks for a later one.
\<close>

definition json_load :: "env \<Rightarrow> string \<Rightarrow> py_error + json" where
  "json_load env service_file =
     (case load env service_file of
        CannotOpen \<Rightarrow> Inl OSError
      | NotJSON \<Rightarrow> Inl JSONDecodeError
      | Fails e \<Rightarrow> Inl e
      | Parsed j \<Rightarrow> Inr j)"

definition iter_service_metadata :: "env \<Rightarrow> string list \<Rightarrow> (py_error + json) list" where
  "iter_service_metadata env service_json_metadata_files =
     map (json_load env) service_json_metadata_files"

subsection \<open>\<open>get_service_name\<close>\<close>

definition get_service_name :: "json \<Rightarrow> json \<Rightarrow> py_error + json" where
  "get_service_name service_meta fallback =
     (case dict_get service_meta ''service'' JNull of
        Inl e \<Rightarrow> Inl e
      | Inr a \<Rightarrow>
          if truthy a then Inr a
          else (case dict_get service_meta ''serviceKey'' JNull of
                  Inl e \<Rightarrow> Inl e
                | Inr b \<Rightarrow> if truthy b then Inr b else Inr fallback))"

subsection \<open>\<open>iter_repo_urls\<close>\<close>

definition no_repos_msg :: "env \<Rightarrow> json \<Rightarrow> string" where
  "no_repos_msg env service_name =
     ''No codeRepositories found for service '' @ py_str env service_name"

definition no_url_msg :: "env \<Rightarrow> json \<Rightarrow> nat \<Rightarrow> string" where
  "no_url_msg env service_name i =
     ''No url found for repo '' @ py_str env service_name @ '' in service '' @ str_nat i"

text \<open>
  The source reads \<open>codeRepositories\<close> from the metadata twice, for the test and for
  the loop; nothing changes the dict in between, and the model reads it once.
  \<open>logger.warn\<close> is the older name of \<open>logger.warning\<close>.

  The loop over \<open>enumerate(...)\<close>, from index \<open>i\<close> on:
\<close>

fun repo_loop :: "env \<Rightarrow> json \<Rightarrow> nat \<Rightarrow> json list \<Rightarrow> generator" where
  "repo_loop env service_name i [] = ([], None)"
| "repo_loop env service_name i (repo # rest) =
     (case dict_get repo ''url'' JNull of
        Inl e \<Rightarrow> ([], Some e)
      | Inr repo_url \<Rightarrow>
          (let g = repo_loop env service_name (Suc i) rest
           in if \<not> truthy repo_url
              then (Warn (no_url_msg env service_name i) # fst g, snd g)
              else (Yield repo_url # fst g, snd g)))"

definition iter_repo_urls :: "env \<Rightarrow> json \<Rightarrow> generator" where
  "iter_repo_urls env service_meta =
     (case dict_get service_meta ''codeRepositories'' (JArr []) of
        Inl e \<Rightarrow> ([], Some e)
      | Inr repos \<Rightarrow>
          (case get_service_name service_meta (JStr ''unnamed'') of
             Inl e \<Rightarrow> ([], Some e)
           | Inr service_name \<Rightarrow>
               if \<not> truthy repos
               then ([Warn (no_repos_msg env service_name)], raise_StopIteration env)
               else (case py_iter repos of
                       Inl e \<Rightarrow> ([], Some e)
                     | Inr entries \<Rightarrow> repo_loop env service_name 0 entries)))"

subsection \<open>\<open>run_command_on_repo\<close>\<close>

text \<open>
  \<open>print(line)\<close>: the line reaches standard output, or the write raises and nothing
  is written.
\<close>

definition py_print :: "env \<Rightarrow> string \<Rightarrow> result" where
  "py_print env line =
     (case stdout_write env line of
        Some e \<Rightarrow> ([], Some e)
      | None \<Rightarrow> ([Print line], None))"

text \<open>
  \<open>subprocess.run(cmd, universal_newlines=True, shell=True)\<close>.  A command that holds
  U+0000 is refused with \<open>ValueError\<close> and a shell that cannot be started raises
  \<open>OSError\<close>, in both cases before any child exists.  Otherwise the shell is started
  and the call waits for the child; it returns the exit status.
\<close>

definition subprocess_run :: "env \<Rightarrow> string \<Rightarrow> event list \<times> (py_error + int)" where
  "subprocess_run env c =
     (if CHR 0x00 \<in> set c then ([], Inl ValueError)
      else (case spawn env c of
              CannotStart \<Rightarrow> ([], Inl OSError)
            | Terminated rc \<Rightarrow> ([Run c, Exited rc], Inr rc)))"

text \<open>The value \<open>subprocess.run\<close> returns is dropped; an exception it raises is not caught.\<close>

definition run_command_on_repo :: "env \<Rightarrow> string \<Rightarrow> bool \<Rightarrow> result" where
  "run_command_on_repo env c dry =
     (if dry then py_print env (''would run '' @ py_repr c)
      else (case subprocess_run env c of
              (evs, Inl e) \<Rightarrow> (evs, Some e)
            | (evs, Inr rc) \<Rightarrow> (evs, None)))"

subsection \<open>\<open>main\<close>\<close>

text \<open>
  \<open>args.cmd.replace("{}", repo_url)\<close>: the attribute is looked up first, so a missing
  \<open>-c\<close> fails before the argument is examined; the argument must be a string.
\<close>

definition cmd_replace :: "string option \<Rightarrow> json \<Rightarrow> py_error + string" where
  "cmd_replace c repo_url =
     (case c of
        None \<Rightarrow> Inl AttributeError
      | Some template \<Rightarrow>
          (case repo_url of
             JStr u \<Rightarrow> Inr (str_replace template ''{}'' u)
           | _ \<Rightarrow> Inl TypeError))"

text \<open>
  The body of the inner loop.  Its first line, \<open>service_name = get_service_name(service_meta)\<close>,
  binds a name that is never read and cannot raise once \<open>iter_repo_urls\<close> has yielded.
  An exception of the Runner leaves the loop as any other does.
\<close>

definition loop_body :: "env \<Rightarrow> args \<Rightarrow> json \<Rightarrow> result" where
  "loop_body env a repo_url =
     (case cmd_replace (cmd a) repo_url of
        Inl e \<Rightarrow> ([], Some e)
      | Inr c \<Rightarrow> run_command_on_repo env c (dry_run a))"

text \<open>
  The inner \<open>for\<close> loop drives the generator: the generator's warnings happen when it
  is resumed, the body runs at each yield, and an exception in the body leaves the rest
  of the generator unrun.
\<close>

fun for_repo_url :: "env \<Rightarrow> args \<Rightarrow> nat \<Rightarrow> gen_item list \<Rightarrow> py_error option \<Rightarrow> result" where
  "for_repo_url env a level [] fin = ([], fin)"
| "for_repo_url env a level (Warn msg # g) fin =
     then_do (logger_warn level msg, None) (for_repo_url env a level g fin)"
| "for_repo_url env a level (Yield repo_url # g) fin =
     then_do (loop_body env a repo_url) (for_repo_url env a level g fin)"

text \<open>The outer \<open>for\<close> loop: a file that fails to load raises when its turn comes.\<close>

fun for_service_meta :: "env \<Rightarrow> args \<Rightarrow> nat \<Rightarrow> (py_error + json) list \<Rightarrow> result" where
  "for_service_meta env a level [] = ([], None)"
| "for_service_meta env a level (Inl e # metas) = ([], Some e)"
| "for_service_meta env a level (Inr service_meta # metas) =
     (let g = iter_repo_urls env service_meta
      in then_do (for_repo_url env a level (fst g) (snd g))
                 (for_service_meta env a level metas))"

definition main :: "env \<Rightarrow> args \<Rightarrow> result" where
  "main env a =
     (let level = (if quiet a then getLevelName_ERROR else WARNING)
      in for_service_meta env a level (iter_service_metadata env (json_files a)))"

text \<open>The exit status of the interpreter: 1 after an uncaught exception.\<close>

definition exit_status :: "result \<Rightarrow> nat" where
  "exit_status r = (case snd r of None \<Rightarrow> 0 | Some e \<Rightarrow> 1)"

section \<open>Notions used to state the properties\<close>

text \<open>\<open>sep.join(parts)\<close>.\<close>

fun join :: "string \<Rightarrow> string list \<Rightarrow> string" where
  "join sep [] = []"
| "join sep [p] = p"
| "join sep (p # q # ps) = p @ sep @ join sep (q # ps)"

text \<open>The stretches of a template between the occurrences of \<open>{}\<close>, read from the left.\<close>

fun pieces :: "string \<Rightarrow> string list" where
  "pieces [] = [[]]"
| "pieces [c] = [[c]]"
| "pieces (c # d # cs) =
     (if c = CHR ''{'' \<and> d = CHR ''}'' then [] # pieces cs
      else (case pieces (d # cs) of [] \<Rightarrow> [[c]] | p # ps \<Rightarrow> (c # p) # ps))"

text \<open>What a generator yielded and what it warned, each in order.\<close>

fun yielded :: "gen_item list \<Rightarrow> json list" where
  "yielded [] = []"
| "yielded (Yield u # g) = u # yielded g"
| "yielded (Warn msg # g) = yielded g"

fun warned :: "gen_item list \<Rightarrow> string list" where
  "warned [] = []"
| "warned (Yield u # g) = warned g"
| "warned (Warn msg # g) = msg # warned g"

text \<open>The commands on which a shell was started, and the lines printed.\<close>

fun runs :: "event list \<Rightarrow> string list" where
  "runs [] = []"
| "runs (Run c # evs) = c # runs evs"
| "runs (e # evs) = runs evs"

fun printed :: "event list \<Rightarrow> string list" where
  "printed [] = []"
| "printed (Print line # evs) = line # printed evs"
| "printed (e # evs) = printed evs"

text \<open>
  A trace in which the parent waits for each child: the start of a shell is followed
  at once by the end of that child, and no child ends that was not just started.
\<close>

fun waits_for_children :: "event list \<Rightarrow> bool" where
  "waits_for_children [] = True"
| "waits_for_children (Run c # Exited rc # evs) = waits_for_children evs"
| "waits_for_children (Run c # evs) = False"
| "waits_for_children (Exited rc # evs) = False"
| "waits_for_children (e # evs) = waits_for_children evs"

text \<open>The log records of a trace, and the trace without them.\<close>

fun logged :: "event list \<Rightarrow> string list" where
  "logged [] = []"
| "logged (Log msg # evs) = msg # logged evs"
| "logged (e # evs) = logged evs"

fun unlogged :: "event list \<Rightarrow> event list" where
  "unlogged [] = []"
| "unlogged (Log msg # evs) = unlogged evs"
| "unlogged (e # evs) = e # unlogged evs"

text \<open>The \<open>url\<close> field of a repository entry, \<open>None\<close> when there is none.\<close>

definition entry_url :: "json \<Rightarrow> json" where
  "entry_url repo = (case dict_get repo ''url'' JNull of Inl e \<Rightarrow> JNull | Inr v \<Rightarrow> v)"

definition is_dict :: "json \<Rightarrow> bool" where
  "is_dict v = (case v of JObj kvs \<Rightarrow> True | _ \<Rightarrow> False)"

text \<open>The URLs a file contributes: those its metadata yields, none if it does not load.\<close>

definition file_urls :: "env \<Rightarrow> string \<Rightarrow> json list" where
  "file_urls env service_file =
     (case json_load env service_file of
        Inl e \<Rightarrow> []
      | Inr service_meta \<Rightarrow> yielded (fst (iter_repo_urls env service_meta)))"

text \<open>The Runner called on each of a list of URLs in turn, with the template \<open>c\<close>.\<close>

definition runner_trace :: "env \<Rightarrow> args \<Rightarrow> string \<Rightarrow> string list \<Rightarrow> event list" where
  "runner_trace env a c us =
     concat (map (\<lambda>u. fst (run_command_on_repo env (str_replace c ''{}'' u) (dry_run a))) us)"

text \<open>
  A small installation for concrete runs: an interpreter with PEP 479 in force, a
  shell in which every command ends with status 0, a standard output that takes every
  line, and five files, the first being the example of the documentation and
  \<open>nul.json\<close> one whose only URL ends in U+0000; every other path cannot be opened.
\<close>

definition foo_meta :: json where
  "foo_meta = JObj [(''service'', JStr ''Foo''),
                    (''codeRepositories'', JArr [JObj [(''url'', JStr ''https://a.git'')], JObj []])]"

definition tiles_meta :: json where
  "tiles_meta = JObj [(''service'', JStr ''Tiles'')]"

definition bar_meta :: json where
  "bar_meta = JObj [(''serviceKey'', JStr ''bar''),
                    (''codeRepositories'', JArr [JObj [(''url'', JStr ''https://b.git'')],
                                                 JObj [(''url'', JStr ''https://c.git'')]])]"

definition nul_meta :: json where
  "nul_meta = JObj [(''codeRepositories'', JArr [JObj [(''url'', JStr [CHR ''a'', CHR 0x00])]])]"

definition demo_load :: "string \<Rightarrow> load_result" where
  "demo_load f =
     (if f = ''foo.json'' then Parsed foo_meta
      else if f = ''nul.json'' then Parsed nul_meta
      else if f = ''tiles.json'' then Parsed tiles_meta
      else if f = ''bar.json'' then Parsed bar_meta
      else if f = ''broken.json'' then NotJSON
      else CannotOpen)"

definition demo_env :: env where
  "demo_env = \<lparr>generator_stop = True, load = demo_load, str_of = (\<lambda>v. ''?''),
               spawn = (\<lambda>c. Terminated 0), stdout_write = (\<lambda>line. None)\<rparr>"

section \<open>The outer loop, file by file\<close>

lemma for_service_meta_files_Nil [simp]:
  "for_service_meta env a level (iter_service_metadata env []) = ([], None)"
  by (simp add: iter_service_metadata_def)

lemma for_service_meta_files_Cons [simp]:
  "for_service_meta env a level (iter_service_metadata env (service_file # files)) =
     (case json_load env service_file of
        Inl e \<Rightarrow> ([], Some e)
      | Inr service_meta \<Rightarrow>
          (let g = iter_repo_urls env service_meta
           in then_do (for_repo_url env a level (fst g) (snd g))
                (for_service_meta env a level (iter_service_metadata env files))))"
  by (simp add: iter_service_metadata_def split: sum.splits)

section \<open>Placeholder substitution\<close>

lemma str_replace_Nil: "str_replace [] ''{}'' u = []"
  by (simp add: str_replace.simps)

lemma str_replace_hit:
  "str_replace (CHR ''{'' # CHR ''}'' # r) ''{}'' u = u @ str_replace r ''{}'' u"
  by (subst str_replace.simps) simp

lemma str_replace_miss:
  "\<not> prefix ''{}'' (c # cs) \<Longrightarrow> str_replace (c # cs) ''{}'' u = c # str_replace cs ''{}'' u"
  by (subst str_replace.simps) auto

lemma prefix_braces_append:
  "\<not> sublist ''{}'' (c # cs) \<Longrightarrow> \<not> prefix ''{}'' (c # cs @ CHR ''{'' # r)"
  by (cases cs) (auto simp: sublist_Cons_right)

lemma str_replace_keep:
  "\<not> sublist ''{}'' p \<Longrightarrow>
   str_replace (p @ ''{}'' @ r) ''{}'' u = p @ u @ str_replace r ''{}'' u"
proof (induction p)
  case Nil
  show ?case by (simp add: str_replace_hit)
next
  case (Cons c cs)
  from Cons.prems have miss: "\<not> prefix ''{}'' (c # cs @ CHR ''{'' # CHR ''}'' # r)"
    by (rule prefix_braces_append)
  from Cons.prems have "\<not> sublist ''{}'' cs"
    by (simp add: sublist_Cons_right)
  with Cons.IH miss show ?case
    by (simp add: str_replace_miss)
qed

lemma str_replace_none:
  "\<not> sublist ''{}'' p \<Longrightarrow> str_replace p ''{}'' u = p"
proof (induction p)
  case Nil
  show ?case by (simp add: str_replace_Nil)
next
  case (Cons c cs)
  from Cons.prems have miss: "\<not> prefix ''{}'' (c # cs)"
    by (simp add: sublist_Cons_right)
  from Cons.prems have "\<not> sublist ''{}'' cs"
    by (simp add: sublist_Cons_right)
  with Cons.IH miss show ?case
    by (simp add: str_replace_miss)
qed

lemma str_replace_join:
  "\<forall>p \<in> set parts. \<not> sublist ''{}'' p \<Longrightarrow>
   str_replace (join ''{}'' parts) ''{}'' u = join u parts"
proof (induction parts rule: induct_list012)
  case 1
  show ?case by (simp add: str_replace_Nil)
next
  case (2 p)
  then show ?case by (simp add: str_replace_none)
next
  case (3 p q ps)
  then show ?case using str_replace_keep[of p "join ''{}'' (q # ps)" u] by simp
qed

text \<open>Every template is its pieces joined by the placeholder, and no piece holds one.\<close>

lemma pieces_nonempty: "pieces t \<noteq> []"
  by (induction t rule: pieces.induct) (auto split: list.splits)

lemma join_Cons_hd: "join sep ((c # p) # ps) = c # join sep (p # ps)"
  by (cases ps) auto

lemma join_pieces: "join ''{}'' (pieces t) = t"
proof (induction t rule: pieces.induct)
  case 1
  show ?case by simp
next
  case (2 c)
  show ?case by simp
next
  case (3 c d cs)
  show ?case
  proof (cases "c = CHR ''{'' \<and> d = CHR ''}''")
    case True
    with 3 show ?thesis using pieces_nonempty[of cs] by (cases "pieces cs") auto
  next
    case False
    with 3 show ?thesis using pieces_nonempty[of "d # cs"]
      by (cases "pieces (d # cs)") (auto simp: join_Cons_hd)
  qed
qed

lemma pieces_hd: "pieces (d # cs) = q # qs \<Longrightarrow> q = [] \<or> hd q = d"
  by (cases cs) (auto split: if_splits list.splits)

lemma pieces_free: "p \<in> set (pieces t) \<Longrightarrow> \<not> sublist ''{}'' p"
proof (induction t arbitrary: p rule: pieces.induct)
  case 1
  then show ?case by simp
next
  case (2 c)
  then show ?case by (auto simp: sublist_Cons_right)
next
  case (3 c d cs)
  show ?case
  proof (cases "c = CHR ''{'' \<and> d = CHR ''}''")
    case True
    with 3 show ?thesis by auto
  next
    case False
    from 3(2)[OF False]
    have IH: "\<And>q. q \<in> set (pieces (d # cs)) \<Longrightarrow> \<not> sublist ''{}'' q" .
    obtain q qs where pq: "pieces (d # cs) = q # qs"
      using pieces_nonempty[of "d # cs"] by (cases "pieces (d # cs)") auto
    have hdq: "q = [] \<or> hd q = d" using pq by (rule pieces_hd)
    from False hdq have np: "\<not> prefix ''{}'' (c # q)" by (cases q) auto
    from IH[of q] pq have "\<not> sublist ''{}'' q" by simp
    with np have "\<not> sublist ''{}'' (c # q)" by (simp add: sublist_Cons_right)
    with IH pq 3(3) False show ?thesis by auto
  qed
qed

lemma template_decomposition:
  "\<exists>parts. t = join ''{}'' parts \<and> (\<forall>p \<in> set parts. \<not> sublist ''{}'' p)"
  using join_pieces[of t] pieces_free[of _ t] by metis

text \<open>What one call of the Runner can leave in the trace.\<close>

lemma runner_cases:
  "fst (run_command_on_repo env c dry) = []
   \<or> (dry \<and> run_command_on_repo env c dry = ([Print (''would run '' @ py_repr c)], None))
   \<or> (\<not> dry \<and> (\<exists>rc. run_command_on_repo env c dry = ([Run c, Exited rc], None)))"
  by (auto simp: run_command_on_repo_def py_print_def subprocess_run_def
      split: option.splits spawn_result.splits)

lemma runner_runs: "set (runs (fst (run_command_on_repo env c dry))) \<subseteq> {c}"
  using runner_cases[of env c dry] by auto

lemma runner_printed:
  "set (printed (fst (run_command_on_repo env c dry))) \<subseteq> {''would run '' @ py_repr c}"
  using runner_cases[of env c dry] by auto

text \<open>
  Claim C4.  The command handed to the Runner is the template with every occurrence of
  \<open>{}\<close> replaced by the URL: a template is a list of placeholder-free parts joined by
  \<open>{}\<close> (and every template is, by \<open>template_decomposition\<close>), and the command the
  loop body computes and calls the Runner with is the same parts joined by the URL.  No
  other command is run, and no other command is shown in a dry run.  The template
  \<open>echo {} {}\<close> with the URL \<open>http://x\<close> gives \<open>echo http://x http://x\<close>.
\<close>

theorem command_is_template_with_url:
  assumes "cmd a = Some (join ''{}'' parts)"
    and "\<forall>p \<in> set parts. \<not> sublist ''{}'' p"
  shows "cmd_replace (cmd a) (JStr u) = Inr (join u parts)
         \<and> loop_body env a (JStr u) = run_command_on_repo env (join u parts) (dry_run a)
         \<and> set (runs (fst (loop_body env a (JStr u)))) \<subseteq> {join u parts}
         \<and> set (printed (fst (loop_body env a (JStr u))))
             \<subseteq> {''would run '' @ py_repr (join u parts)}
         \<and> str_replace ''echo {} {}'' ''{}'' ''http://x'' = ''echo http://x http://x''"
proof -
  have "str_replace (join ''{}'' parts) ''{}'' u = join u parts"
    using assms(2) by (rule str_replace_join)
  with assms(1) have c: "cmd_replace (cmd a) (JStr u) = Inr (join u parts)"
    by (simp add: cmd_replace_def)
  then have body: "loop_body env a (JStr u)
      = run_command_on_repo env (join u parts) (dry_run a)"
    by (simp add: loop_body_def)
  have "\<forall>p \<in> set [''echo '', '' '', ''''].  \<not> sublist ''{}'' p"
    by (simp add: sublist_Cons_right)
  then have "str_replace (join ''{}'' [''echo '', '' '', '''']) ''{}'' ''http://x''
      = join ''http://x'' [''echo '', '' '', '''']"
    by (rule str_replace_join)
  then have "str_replace ''echo {} {}'' ''{}'' ''http://x'' = ''echo http://x http://x''"
    by simp
  with c body show ?thesis
    using runner_runs[of env "join u parts" "dry_run a"]
      runner_printed[of env "join u parts" "dry_run a"]
    by simp
qed

theorem command_is_template_with_url_witness:
  "cmd \<lparr>cmd = Some ''echo {} {}'', dry_run = False, quiet = False, json_files = []\<rparr>
     = Some (join ''{}'' [''echo '', '' '', ''''])
   \<and> \<not> sublist ''{}'' ''echo '' \<and> \<not> sublist ''{}'' '' '' \<and> \<not> sublist ''{}'' ''''
   \<and> cmd_replace (Some ''echo {} {}'') (JStr ''http://x'') = Inr ''echo http://x http://x''
   \<and> loop_body demo_env
         \<lparr>cmd = Some ''echo {} {}'', dry_run = False, quiet = False, json_files = []\<rparr>
         (JStr ''http://x'')
       = run_command_on_repo demo_env ''echo http://x http://x'' False
   \<and> run_command_on_repo demo_env ''echo http://x http://x'' False
       = ([Run ''echo http://x http://x'', Exited 0], None)"
proof -
  have h1: "cmd \<lparr>cmd = Some ''echo {} {}'', dry_run = False, quiet = False, json_files = []\<rparr>
     = Some (join ''{}'' [''echo '', '' '', ''''])" by simp
  have h2: "\<forall>p \<in> set [''echo '', '' '', '''']. \<not> sublist ''{}'' p"
    by (simp add: sublist_Cons_right)
  have r: "run_command_on_repo demo_env ''echo http://x http://x'' False
       = ([Run ''echo http://x http://x'', Exited 0], None)"
    by (simp add: run_command_on_repo_def subprocess_run_def demo_env_def)
  show ?thesis
    using h1 h2 r command_is_template_with_url[OF h1 h2, of "''http://x''" demo_env]
    by simp
qed

text \<open>
  Claim C10.  Substitution is one pass from the left over the original template: up to
  and including the first placeholder the result is the text before it followed by the
  URL as it is, whatever the URL holds, and the scan goes on in the rest of the template
  only.  A placeholder inside the URL therefore stays in the command.
\<close>

theorem substituted_url_not_rescanned:
  assumes "\<not> sublist ''{}'' pre"
  shows "cmd_replace (Some (pre @ ''{}'' @ rest)) (JStr u)
           = Inr (pre @ u @ str_replace rest ''{}'' u)"
  using str_replace_keep[OF assms, of rest u] by (simp add: cmd_replace_def)

theorem substituted_url_not_rescanned_witness:
  "\<not> sublist ''{}'' ''echo '' \<and>
   cmd_replace (Some ''echo {} {}'') (JStr ''a{}b'') = Inr ''echo a{}b a{}b''"
proof -
  have h: "\<not> sublist ''{}'' ''echo ''" by (simp add: sublist_Cons_right)
  have r: "str_replace '' {}'' ''{}'' ''a{}b'' = '' a{}b''"
    by (simp add: str_replace_miss str_replace_hit str_replace_Nil)
  show ?thesis
    using h r substituted_url_not_rescanned[OF h, of "'' {}''" "''a{}b''"] by simp
qed

section \<open>The URL Extractor\<close>

lemma dict_get_url: "is_dict r \<Longrightarrow> dict_get r ''url'' JNull = Inr (entry_url r)"
  by (cases r) (auto simp: is_dict_def entry_url_def)

lemma repo_loop_items:
  "\<forall>r \<in> set entries. is_dict r \<Longrightarrow>
   repo_loop env name i entries =
     (map (\<lambda>(j, r). if truthy (entry_url r) then Yield (entry_url r)
                      else Warn (no_url_msg env name j)) (enumerate i entries), None)"
  by (induction entries arbitrary: i) (simp_all add: dict_get_url Let_def)

lemma yielded_items:
  "yielded (map (\<lambda>(j, r). if truthy (entry_url r) then Yield (entry_url r)
                      else Warn (msg j)) (enumerate i entries))
   = filter truthy (map entry_url entries)"
  by (induction entries arbitrary: i) simp_all

lemma warned_items:
  "warned (map (\<lambda>(j, r). if truthy (entry_url r) then Yield (entry_url r)
                      else Warn (msg j)) (enumerate i entries))
   = map (\<lambda>(j, r). msg j) (filter (\<lambda>(j, r). \<not> truthy (entry_url r)) (enumerate i entries))"
  by (induction entries arbitrary: i) simp_all

lemma length_yielded_warned: "length (yielded g) + length (warned g) = length g"
  by (induction g rule: yielded.induct) simp_all

lemma entries_generator:
  assumes "service_meta = JObj kvs"
    and "map_of kvs ''codeRepositories'' = Some (JArr entries)"
    and "entries \<noteq> []"
    and "\<forall>r \<in> set entries. is_dict r"
    and "get_service_name service_meta (JStr ''unnamed'') = Inr name"
  shows "iter_repo_urls env service_meta =
     (map (\<lambda>(j, r). if truthy (entry_url r) then Yield (entry_url r)
                      else Warn (no_url_msg env name j)) (enumerate 0 entries), None)"
  using assms by (simp add: iter_repo_urls_def repo_loop_items)

text \<open>
  Claim C3.  For a service whose \<open>codeRepositories\<close> is a non-empty list of \<open>N\<close> entries
  (each a mapping), of which \<open>M\<close> have a \<open>url\<close> that is present and not empty, the
  Extractor ends normally, yields exactly those \<open>M\<close> values in their order, and warns
  \<open>N - M\<close> times, once for each other entry, with that entry's index counted from 0 in
  the message.
\<close>

theorem iter_repo_urls_entries:
  assumes "service_meta = JObj kvs"
    and "map_of kvs ''codeRepositories'' = Some (JArr entries)"
    and "entries \<noteq> []"
    and "\<forall>r \<in> set entries. is_dict r"
    and "get_service_name service_meta (JStr ''unnamed'') = Inr name"
  shows "snd (iter_repo_urls env service_meta) = None
    \<and> yielded (fst (iter_repo_urls env service_meta)) = filter truthy (map entry_url entries)
    \<and> warned (fst (iter_repo_urls env service_meta)) =
        map (\<lambda>(i, r). no_url_msg env name i)
          (filter (\<lambda>(i, r). \<not> truthy (entry_url r)) (enumerate 0 entries))
    \<and> length (warned (fst (iter_repo_urls env service_meta))) =
        length entries - length (yielded (fst (iter_repo_urls env service_meta)))"
proof -
  let ?g = "map (\<lambda>(j, r). if truthy (entry_url r) then Yield (entry_url r)
                      else Warn (no_url_msg env name j)) (enumerate 0 entries)"
  have eq: "iter_repo_urls env service_meta = (?g, None)"
    using assms by (rule entries_generator)
  have len: "length (yielded ?g) + length (warned ?g) = length entries"
    using length_yielded_warned[of ?g] by simp
  show ?thesis
    using len by (simp add: eq yielded_items warned_items del: length_filter_conv_card)
qed

theorem iter_repo_urls_entries_witness:
  "foo_meta = JObj [(''service'', JStr ''Foo''),
      (''codeRepositories'', JArr [JObj [(''url'', JStr ''https://a.git'')], JObj []])]
   \<and> [JObj [(''url'', JStr ''https://a.git'')], JObj []] \<noteq> []
   \<and> is_dict (JObj [(''url'', JStr ''https://a.git'')]) \<and> is_dict (JObj [])
   \<and> get_service_name foo_meta (JStr ''unnamed'') = Inr (JStr ''Foo'')
   \<and> snd (iter_repo_urls demo_env foo_meta) = None
   \<and> yielded (fst (iter_repo_urls demo_env foo_meta)) = [JStr ''https://a.git'']
   \<and> warned (fst (iter_repo_urls demo_env foo_meta)) = [''No url found for repo Foo in service 1'']
   \<and> length (warned (fst (iter_repo_urls demo_env foo_meta))) = 1"
proof -
  let ?kvs = "[(''service'', JStr ''Foo''),
      (''codeRepositories'', JArr [JObj [(''url'', JStr ''https://a.git'')], JObj []])]"
  let ?entries = "[JObj [(''url'', JStr ''https://a.git'')], JObj []]"
  have h1: "foo_meta = JObj ?kvs" by (simp add: foo_meta_def)
  have h2: "map_of ?kvs ''codeRepositories'' = Some (JArr ?entries)" by simp
  have h3: "?entries \<noteq> []" by simp
  have h4: "\<forall>r \<in> set ?entries. is_dict r" by (simp add: is_dict_def)
  have h5: "get_service_name foo_meta (JStr ''unnamed'') = Inr (JStr ''Foo'')"
    by (simp add: foo_meta_def get_service_name_def)
  have s1: "str_nat (Suc 0) = ''1''" by (simp add: str_nat.simps digit_char_def)
  show ?thesis
    using h1 h3 h4 h5 iter_repo_urls_entries[OF h1 h2 h3 h4 h5, of demo_env]
    by (simp add: entry_url_def no_url_msg_def py_str_def s1)
qed


lemma all_warn_items:
  "\<forall>r \<in> set entries. \<not> truthy (entry_url r) \<Longrightarrow>
   map (\<lambda>(j, r). if truthy (entry_url r) then Yield (entry_url r) else Warn (msg j))
     (enumerate i entries) = map (\<lambda>j. Warn (msg j)) [i..<i + length entries]"
proof (induction entries arbitrary: i)
  case Nil
  show ?case by simp
next
  case (Cons r rs)
  then have "map (\<lambda>(j, r). if truthy (entry_url r) then Yield (entry_url r) else Warn (msg j))
     (enumerate (Suc i) rs) = map (\<lambda>j. Warn (msg j)) [Suc i..<Suc i + length rs]"
    by simp
  with Cons.prems show ?case by (simp add: upt_conv_Cons del: upt_Suc)
qed

lemma warned_all_warn: "warned (map (\<lambda>j. Warn (msg j)) js) = map msg js"
  by (induction js) simp_all

lemma yielded_all_warn: "yielded (map (\<lambda>j. Warn (msg j)) js) = []"
  by (induction js) simp_all

lemma no_repos_msg_not_no_url_msg:
  "no_repos_msg env name \<notin> set (map (no_url_msg env name') js)"
  by (induction js) (simp_all add: no_url_msg_def no_repos_msg_def)

text \<open>
  Claim C9.  For a service whose \<open>codeRepositories\<close> is a non-empty list in which no
  entry has a \<open>url\<close> that is present and not empty, the Extractor ends normally, yields
  nothing, warns once per entry about the missing url, and never gives the warning that
  the service has no \<open>codeRepositories\<close>.
\<close>

theorem iter_repo_urls_no_urls:
  assumes "service_meta = JObj kvs"
    and "map_of kvs ''codeRepositories'' = Some (JArr entries)"
    and "entries \<noteq> []"
    and "\<forall>r \<in> set entries. is_dict r \<and> \<not> truthy (entry_url r)"
    and "get_service_name service_meta (JStr ''unnamed'') = Inr name"
  shows "iter_repo_urls env service_meta =
           (map (\<lambda>i. Warn (no_url_msg env name i)) [0..<length entries], None)
    \<and> yielded (fst (iter_repo_urls env service_meta)) = []
    \<and> warned (fst (iter_repo_urls env service_meta)) =
        map (no_url_msg env name) [0..<length entries]
    \<and> no_repos_msg env name \<notin> set (warned (fst (iter_repo_urls env service_meta)))"
proof -
  from assms(4) have d: "\<forall>r \<in> set entries. is_dict r"
    and f: "\<forall>r \<in> set entries. \<not> truthy (entry_url r)" by auto
  have "iter_repo_urls env service_meta =
     (map (\<lambda>(j, r). if truthy (entry_url r) then Yield (entry_url r)
                      else Warn (no_url_msg env name j)) (enumerate 0 entries), None)"
    using assms(1,2,3) d assms(5) by (rule entries_generator)
  then have eq: "iter_repo_urls env service_meta =
           (map (\<lambda>i. Warn (no_url_msg env name i)) [0..<length entries], None)"
    using all_warn_items[OF f, of "no_url_msg env name" 0] by simp
  have "no_repos_msg env name \<notin> set (map (no_url_msg env name) [0..<length entries])"
    by (rule no_repos_msg_not_no_url_msg)
  then show ?thesis
    by (simp add: eq warned_all_warn yielded_all_warn del: upt_Suc)
qed


theorem iter_repo_urls_no_urls_witness:
  "is_dict (JObj []) \<and> \<not> truthy (entry_url (JObj []))
   \<and> is_dict (JObj [(''url'', JStr [])]) \<and> \<not> truthy (entry_url (JObj [(''url'', JStr [])]))
   \<and> get_service_name (JObj [(''codeRepositories'', JArr [JObj [], JObj [(''url'', JStr [])]])])
        (JStr ''unnamed'') = Inr (JStr ''unnamed'')
   \<and> iter_repo_urls demo_env (JObj [(''codeRepositories'', JArr [JObj [], JObj [(''url'', JStr [])]])])
      = ([Warn ''No url found for repo unnamed in service 0'',
          Warn ''No url found for repo unnamed in service 1''], None)"
proof -
  let ?entries = "[JObj [], JObj [(''url'', JStr [])]]"
  let ?kvs = "[(''codeRepositories'', JArr ?entries)]"
  have h1: "JObj ?kvs = JObj ?kvs" by simp
  have h2: "map_of ?kvs ''codeRepositories'' = Some (JArr ?entries)" by simp
  have h3: "?entries \<noteq> []" by simp
  have h4: "\<forall>r \<in> set ?entries. is_dict r \<and> \<not> truthy (entry_url r)"
    by (simp add: is_dict_def entry_url_def)
  have h5: "get_service_name (JObj ?kvs) (JStr ''unnamed'') = Inr (JStr ''unnamed'')"
    by (simp add: get_service_name_def)
  have s0: "str_nat 0 = ''0''" by (simp add: str_nat.simps digit_char_def)
  have s1: "str_nat (Suc 0) = ''1''" by (simp add: str_nat.simps digit_char_def)
  have up: "[0..<Suc (Suc 0)] = [0, Suc 0]" by (simp add: upt_conv_Cons)
  show ?thesis
    using h4 h5 iter_repo_urls_no_urls[OF h1 h2 h3 h4 h5, of demo_env]
    by (simp add: no_url_msg_def py_str_def s0 s1 up del: upt_Suc)
qed

text \<open>
  A service without \<open>codeRepositories\<close>, or with an empty list: one warning naming the
  service, and then \<open>raise StopIteration\<close> in the generator's body.
\<close>

lemma iter_repo_urls_no_repos:
  assumes "service_meta = JObj kvs"
    and "map_of kvs ''codeRepositories'' = None \<or> map_of kvs ''codeRepositories'' = Some (JArr [])"
    and "get_service_name service_meta (JStr ''unnamed'') = Inr name"
  shows "iter_repo_urls env service_meta =
           ([Warn (no_repos_msg env name)], raise_StopIteration env)"
  using assms by (auto simp: iter_repo_urls_def)

text \<open>
  Claim C1.  For a service without \<open>codeRepositories\<close> the Extractor should warn once,
  yield nothing and end normally, so that the run goes on with the next file.  With
  PEP 479 in force the \<open>raise StopIteration\<close> reaches the loop in \<open>main\<close> as a
  \<open>RuntimeError\<close>: the run over \<open>tiles.json\<close> and \<open>bar.json\<close> stops after the warning and
  never reaches the URLs of \<open>bar.json\<close>.  Only an interpreter without PEP 479 goes on.
\<close>

theorem no_repositories_aborts_run:
  "iter_repo_urls demo_env tiles_meta =
     ([Warn ''No codeRepositories found for service Tiles''], Some RuntimeError)
   \<and> main demo_env \<lparr>cmd = Some ''echo {}'', dry_run = False, quiet = False,
                     json_files = [''tiles.json'', ''bar.json'']\<rparr>
     = ([Log ''No codeRepositories found for service Tiles''], Some RuntimeError)
   \<and> main (demo_env\<lparr>generator_stop := False\<rparr>)
        \<lparr>cmd = Some ''echo {}'', dry_run = False, quiet = False,
         json_files = [''tiles.json'', ''bar.json'']\<rparr>
     = ([Log ''No codeRepositories found for service Tiles'',
         Run ''echo https://b.git'', Exited 0, Run ''echo https://c.git'', Exited 0], None)"
proof -
  have r: "\<And>u. str_replace ''echo {}'' ''{}'' u = ''echo '' @ u"
    by (simp add: str_replace_miss str_replace_hit str_replace_Nil)
  show ?thesis
  by (simp add: main_def demo_env_def demo_load_def json_load_def tiles_meta_def bar_meta_def
      iter_repo_urls_def get_service_name_def no_repos_msg_def py_str_def
      raise_StopIteration_def then_do_def logger_warn_def WARNING_def
      loop_body_def cmd_replace_def r run_command_on_repo_def subprocess_run_def)
qed

section \<open>The Driver\<close>

text \<open>
  Claim C2.  Without \<open>-c\<close> the program should print the service name and the URL of
  each entry.  \<open>args.cmd\<close> is then \<open>None\<close>, and \<open>args.cmd.replace\<close> raises
  \<open>AttributeError\<close> at the first URL: nothing is printed, in a dry run or otherwise.
\<close>

theorem missing_command_raises:
  "main demo_env \<lparr>cmd = None, dry_run = False, quiet = False, json_files = [''foo.json'']\<rparr>
     = ([], Some AttributeError)
   \<and> main demo_env \<lparr>cmd = None, dry_run = True, quiet = False, json_files = [''foo.json'']\<rparr>
     = ([], Some AttributeError)"
  by (simp add: main_def demo_env_def demo_load_def json_load_def foo_meta_def
      iter_repo_urls_def get_service_name_def then_do_def
      loop_body_def cmd_replace_def)

text \<open>Sequencing, and what the loops of \<open>main\<close> read of the arguments.\<close>

lemma then_do_None [simp]: "then_do (evs, None) k = (evs @ fst k, snd k)"
  by (simp add: then_do_def)

lemma then_do_Some [simp]: "then_do (evs, Some e) k = (evs, Some e)"
  by (simp add: then_do_def)

lemma loop_body_args:
  "cmd a = cmd b \<Longrightarrow> dry_run a = dry_run b \<Longrightarrow> loop_body env a u = loop_body env b u"
  by (simp add: loop_body_def split: sum.splits)

lemma for_repo_url_args:
  assumes "cmd a = cmd b" and "dry_run a = dry_run b"
  shows "for_repo_url env a level g fin = for_repo_url env b level g fin"
proof (induction g)
  case Nil
  show ?case by simp
next
  case (Cons x g)
  have "loop_body env a = loop_body env b"
    by (intro ext) (rule loop_body_args[OF assms])
  with Cons show ?case by (cases x) simp_all
qed

lemma for_service_meta_args:
  assumes "cmd a = cmd b" and "dry_run a = dry_run b"
  shows "for_service_meta env a level (iter_service_metadata env files) = for_service_meta env b level (iter_service_metadata env files)"
proof (induction files)
  case Nil
  show ?case by simp
next
  case (Cons f files)
  have "for_repo_url env a level = for_repo_url env b level"
    by (intro ext) (rule for_repo_url_args[OF assms])
  with Cons show ?case by (simp add: Let_def split: sum.splits)
qed

lemma main_files:
  "main env (a\<lparr>json_files := files\<rparr>) =
     for_service_meta env a (if quiet a then getLevelName_ERROR else WARNING) (iter_service_metadata env files)"
  by (simp add: main_def for_service_meta_args[of "a\<lparr>json_files := files\<rparr>" a])

lemma for_service_meta_append:
  "for_service_meta env a level (iter_service_metadata env (files @ files')) =
     then_do (for_service_meta env a level (iter_service_metadata env files)) (for_service_meta env a level (iter_service_metadata env files'))"
proof (induction files)
  case Nil
  show ?case by (simp add: then_do_def)
next
  case (Cons f files)
  show ?case
  proof (cases "json_load env f")
    case (Inl e)
    then show ?thesis by (simp add: then_do_def)
  next
    case (Inr service_meta)
    with Cons.IH show ?thesis
      by (simp add: then_do_def Let_def split: option.splits)
  qed
qed

text \<open>A step of \<open>iter_service_metadata\<close> that raises ends the run there.\<close>

lemma raising_step_aborts_run:
  assumes "json_load env f = Inl e"
  shows "fst (main env (a\<lparr>json_files := pre @ f # post\<rparr>)) = fst (main env (a\<lparr>json_files := pre\<rparr>))
    \<and> exit_status (main env (a\<lparr>json_files := pre @ f # post\<rparr>)) = 1
    \<and> (snd (main env (a\<lparr>json_files := pre\<rparr>)) = None \<longrightarrow>
         snd (main env (a\<lparr>json_files := pre @ f # post\<rparr>)) = Some e)"
proof -
  let ?level = "if quiet a then getLevelName_ERROR else WARNING"
  have stop: "for_service_meta env a ?level (iter_service_metadata env (f # post)) = ([], Some e)"
    using assms by simp
  have run: "for_service_meta env a ?level (iter_service_metadata env (pre @ f # post)) =
      then_do (for_service_meta env a ?level (iter_service_metadata env pre)) ([], Some e)"
    using for_service_meta_append[of env a ?level pre "f # post"] stop by simp
  show ?thesis
    by (simp only: main_files run) (simp add: then_do_def exit_status_def split: option.splits)
qed

text \<open>
  Claim C5.  For a path that cannot be opened, \<open>json.load(open(...))\<close> raises \<open>OSError\<close>
  in \<open>iter_service_metadata\<close>, and for a file whose contents are not JSON it raises
  \<open>JSONDecodeError\<close>; nothing catches either.  The run ends with exit status 1, its
  trace is the trace of the files before the failing one (so no later file is processed
  and no warning stands in for the failure), and when those files were processed to the
  end the exception of the run is that of the failing file.
\<close>

theorem load_failure_aborts_run:
  assumes "load env f = CannotOpen \<or> load env f = NotJSON"
  shows "json_load env f = Inl (if load env f = CannotOpen then OSError else JSONDecodeError)
    \<and> fst (main env (a\<lparr>json_files := pre @ f # post\<rparr>)) = fst (main env (a\<lparr>json_files := pre\<rparr>))
    \<and> exit_status (main env (a\<lparr>json_files := pre @ f # post\<rparr>)) = 1
    \<and> (snd (main env (a\<lparr>json_files := pre\<rparr>)) = None \<longrightarrow>
         snd (main env (a\<lparr>json_files := pre @ f # post\<rparr>))
           = Some (if load env f = CannotOpen then OSError else JSONDecodeError))"
proof -
  have raised: "json_load env f
      = Inl (if load env f = CannotOpen then OSError else JSONDecodeError)"
    using assms by (auto simp: json_load_def)
  from raising_step_aborts_run[OF raised, where a = a and pre = pre and post = post] raised
  show ?thesis
    by simp
qed

theorem load_failure_aborts_run_witness:
  "load demo_env ''missing.json'' = CannotOpen
   \<and> main demo_env \<lparr>cmd = Some ''echo {}'', dry_run = False, quiet = False,
        json_files = [''bar.json'', ''missing.json'', ''foo.json'']\<rparr>
      = ([Run ''echo https://b.git'', Exited 0, Run ''echo https://c.git'', Exited 0],
         Some OSError)
   \<and> exit_status (main demo_env \<lparr>cmd = Some ''echo {}'', dry_run = False, quiet = False,
        json_files = [''bar.json'', ''missing.json'', ''foo.json'']\<rparr>) = 1
   \<and> load demo_env ''broken.json'' = NotJSON
   \<and> main demo_env \<lparr>cmd = Some ''echo {}'', dry_run = False, quiet = False,
        json_files = [''bar.json'', ''broken.json'', ''foo.json'']\<rparr>
      = ([Run ''echo https://b.git'', Exited 0, Run ''echo https://c.git'', Exited 0],
         Some JSONDecodeError)
   \<and> exit_status (main demo_env \<lparr>cmd = Some ''echo {}'', dry_run = False, quiet = False,
        json_files = [''bar.json'', ''broken.json'', ''foo.json'']\<rparr>) = 1"
proof -
  let ?a = "\<lparr>cmd = Some ''echo {}'', dry_run = False, quiet = False, json_files = []\<rparr>"
  have h1: "load demo_env ''missing.json'' = CannotOpen"
    by (simp add: demo_env_def demo_load_def)
  have h2: "load demo_env ''broken.json'' = NotJSON"
    by (simp add: demo_env_def demo_load_def)
  have r: "\<And>u. str_replace ''echo {}'' ''{}'' u = ''echo '' @ u"
    by (simp add: str_replace_miss str_replace_hit str_replace_Nil)
  have m: "main demo_env (?a\<lparr>json_files := [''bar.json'']\<rparr>)
       = ([Run ''echo https://b.git'', Exited 0, Run ''echo https://c.git'', Exited 0], None)"
    by (simp add: main_def demo_env_def demo_load_def json_load_def bar_meta_def
      iter_repo_urls_def get_service_name_def then_do_def WARNING_def
      loop_body_def cmd_replace_def r run_command_on_repo_def subprocess_run_def)
  show ?thesis
    using h1 h2 m
      load_failure_aborts_run[of demo_env "''missing.json''", OF disjI1, OF h1,
        where a = ?a and pre = "[''bar.json'']" and post = "[''foo.json'']"]
      load_failure_aborts_run[of demo_env "''broken.json''", OF disjI2, OF h2,
        where a = ?a and pre = "[''bar.json'']" and post = "[''foo.json'']"]
    by (simp add: prod_eq_iff)
qed

text \<open>The Runner and the loop body log nothing; raising the threshold only drops records.\<close>

lemma unlogged_append: "unlogged (xs @ ys) = unlogged xs @ unlogged ys"
  by (induction xs rule: unlogged.induct) simp_all

lemma logged_unlogged: "logged (unlogged xs) = []"
  by (induction xs rule: unlogged.induct) simp_all

lemma unlogged_runner:
  "unlogged (fst (run_command_on_repo env c dry)) = fst (run_command_on_repo env c dry)"
  using runner_cases[of env c dry] by auto

lemma unlogged_loop_body: "unlogged (fst (loop_body env a u)) = fst (loop_body env a u)"
  by (simp add: loop_body_def unlogged_runner split: sum.splits)

lemma then_do_quiet:
  assumes "r' = (unlogged (fst r), snd r)" and "k' = (unlogged (fst k), snd k)"
  shows "then_do r' k' = (unlogged (fst (then_do r k)), snd (then_do r k))"
  using assms by (cases "snd r") (simp_all add: then_do_def unlogged_append)

lemma for_repo_url_quiet:
  "for_repo_url env a getLevelName_ERROR g fin =
     (unlogged (fst (for_repo_url env a WARNING g fin)), snd (for_repo_url env a WARNING g fin))"
proof (induction g)
  case Nil
  show ?case by simp
next
  case (Cons x g)
  show ?case
  proof (cases x)
    case (Warn msg)
    have "(logger_warn getLevelName_ERROR msg, None) =
        (unlogged (fst (logger_warn WARNING msg, None :: py_error option)),
         snd (logger_warn WARNING msg, None :: py_error option))"
      by (simp add: logger_warn_def getLevelName_ERROR_def WARNING_def)
    from then_do_quiet[OF this Cons.IH] Warn show ?thesis by simp
  next
    case (Yield u)
    have "loop_body env a u = (unlogged (fst (loop_body env a u)), snd (loop_body env a u))"
      by (simp add: unlogged_loop_body)
    from then_do_quiet[OF this Cons.IH] Yield show ?thesis by simp
  qed
qed

lemma for_service_meta_quiet:
  "for_service_meta env a getLevelName_ERROR (iter_service_metadata env files) =
     (unlogged (fst (for_service_meta env a WARNING (iter_service_metadata env files))),
      snd (for_service_meta env a WARNING (iter_service_metadata env files)))"
proof (induction files)
  case Nil
  show ?case by simp
next
  case (Cons f files)
  show ?case
  proof (cases "json_load env f")
    case (Inl e)
    then show ?thesis by simp
  next
    case (Inr service_meta)
    from then_do_quiet[OF for_repo_url_quiet Cons.IH] Inr show ?thesis
      by (simp add: Let_def)
  qed
qed

text \<open>
  Claim C8.  A run with \<open>-q\<close> is the same run without \<open>-q\<close> with the log records taken
  out of its trace: no warning is emitted, the commands printed or executed are the same
  and in the same order, and the run ends in the same way, with the same uncaught
  exception if there is one.
\<close>

theorem quiet_only_drops_warnings:
  "fst (main env (a\<lparr>quiet := True\<rparr>)) = unlogged (fst (main env (a\<lparr>quiet := False\<rparr>)))
   \<and> snd (main env (a\<lparr>quiet := True\<rparr>)) = snd (main env (a\<lparr>quiet := False\<rparr>))
   \<and> logged (fst (main env (a\<lparr>quiet := True\<rparr>))) = []"
proof -
  have q: "main env (a\<lparr>quiet := True\<rparr>) = for_service_meta env a getLevelName_ERROR (iter_service_metadata env (json_files a))"
    by (simp add: main_def for_service_meta_args[of "a\<lparr>quiet := True\<rparr>" a])
  have l: "main env (a\<lparr>quiet := False\<rparr>) = for_service_meta env a WARNING (iter_service_metadata env (json_files a))"
    by (simp add: main_def for_service_meta_args[of "a\<lparr>quiet := False\<rparr>" a])
  show ?thesis
    by (simp add: q l for_service_meta_quiet[of env a "json_files a"] logged_unlogged)
qed

theorem quiet_only_drops_warnings_witness:
  "main (demo_env\<lparr>generator_stop := False\<rparr>)
     \<lparr>cmd = Some ''echo {}'', dry_run = False, quiet = False,
      json_files = [''foo.json'', ''tiles.json'', ''broken.json'']\<rparr>
     = ([Run ''echo https://a.git'', Exited 0,
         Log ''No url found for repo Foo in service 1'',
         Log ''No codeRepositories found for service Tiles''], Some JSONDecodeError)
   \<and> main (demo_env\<lparr>generator_stop := False\<rparr>)
     \<lparr>cmd = Some ''echo {}'', dry_run = False, quiet = True,
      json_files = [''foo.json'', ''tiles.json'', ''broken.json'']\<rparr>
     = ([Run ''echo https://a.git'', Exited 0], Some JSONDecodeError)"
proof -
  let ?env = "demo_env\<lparr>generator_stop := False\<rparr>"
  let ?a = "\<lparr>cmd = Some ''echo {}'', dry_run = False, quiet = False,
      json_files = [''foo.json'', ''tiles.json'', ''broken.json'']\<rparr>"
  have r: "\<And>u. str_replace ''echo {}'' ''{}'' u = ''echo '' @ u"
    by (simp add: str_replace_miss str_replace_hit str_replace_Nil)
  have s1: "str_nat (Suc 0) = ''1''" by (simp add: str_nat.simps digit_char_def)
  have m: "main ?env ?a
     = ([Run ''echo https://a.git'', Exited 0,
         Log ''No url found for repo Foo in service 1'',
         Log ''No codeRepositories found for service Tiles''], Some JSONDecodeError)"
    by (simp add: main_def demo_env_def demo_load_def json_load_def foo_meta_def tiles_meta_def
      iter_repo_urls_def get_service_name_def then_do_def WARNING_def logger_warn_def
      no_url_msg_def no_repos_msg_def py_str_def s1 raise_StopIteration_def
      loop_body_def cmd_replace_def r run_command_on_repo_def subprocess_run_def)
  show ?thesis
    using m quiet_only_drops_warnings[of ?env ?a] by (simp add: prod_eq_iff)
qed

text \<open>The order in which the Runner is called.\<close>

lemma runner_trace_Nil: "runner_trace env a c [] = []"
  by (simp add: runner_trace_def)

lemma runner_trace_Cons:
  "runner_trace env a c (u # us) =
     fst (run_command_on_repo env (str_replace c ''{}'' u) (dry_run a)) @ runner_trace env a c us"
  by (simp add: runner_trace_def)

lemma runner_trace_append:
  "runner_trace env a c (us @ vs) = runner_trace env a c us @ runner_trace env a c vs"
  by (simp add: runner_trace_def)

lemma unlogged_logger_warn: "unlogged (logger_warn level msg) = []"
  by (simp add: logger_warn_def)

lemma for_repo_url_runner:
  assumes "cmd a = Some c"
  shows "\<exists>us rest. yielded g = map JStr us @ rest
      \<and> unlogged (fst (for_repo_url env a level g fin)) = runner_trace env a c us
      \<and> (snd (for_repo_url env a level g fin) = None \<longrightarrow> rest = [])"
proof (induction g)
  case Nil
  show ?case
    by (rule exI[where x = "[]"], rule exI[where x = "[]"]) (simp add: runner_trace_Nil)
next
  case (Cons x g)
  then obtain us rest where IH: "yielded g = map JStr us @ rest"
      "unlogged (fst (for_repo_url env a level g fin)) = runner_trace env a c us"
      "snd (for_repo_url env a level g fin) = None \<longrightarrow> rest = []"
    by (elim exE conjE)
  show ?case
  proof (cases x)
    case (Warn msg)
    have "yielded (x # g) = map JStr us @ rest" using Warn IH(1) by simp
    moreover have "unlogged (fst (for_repo_url env a level (x # g) fin)) = runner_trace env a c us"
      using Warn IH(2) by (simp add: then_do_def unlogged_append unlogged_logger_warn)
    moreover have "snd (for_repo_url env a level (x # g) fin) = None \<longrightarrow> rest = []"
      using Warn IH(3) by (simp add: then_do_def)
    ultimately show ?thesis
        by (intro exI[where x = "us"] exI[where x = "rest"] conjI)
  next
    case (Yield v)
    show ?thesis
    proof (cases "\<exists>u. v = JStr u")
      case True
      then obtain u where v: "v = JStr u" by blast
      let ?r = "run_command_on_repo env (str_replace c ''{}'' u) (dry_run a)"
      have lb: "loop_body env a v = ?r"
        using assms v by (simp add: loop_body_def cmd_replace_def)
      show ?thesis
      proof (cases "snd ?r")
        case None
        have "yielded (x # g) = map JStr (u # us) @ rest" using Yield v IH(1) by simp
        moreover have "unlogged (fst (for_repo_url env a level (x # g) fin))
            = runner_trace env a c (u # us)"
          using Yield IH(2) lb None
          by (simp add: then_do_def unlogged_append unlogged_runner runner_trace_Cons)
        moreover have "snd (for_repo_url env a level (x # g) fin) = None \<longrightarrow> rest = []"
          using Yield IH(3) lb None by (simp add: then_do_def)
        ultimately show ?thesis
          by (intro exI[where x = "u # us"] exI[where x = "rest"] conjI)
      next
        case (Some e)
        have "yielded (x # g) = map JStr [u] @ yielded g" using Yield v by simp
        moreover have "unlogged (fst (for_repo_url env a level (x # g) fin))
            = runner_trace env a c [u]"
          using Yield lb Some
          by (simp add: then_do_def unlogged_runner runner_trace_Cons runner_trace_Nil)
        moreover have "snd (for_repo_url env a level (x # g) fin) = None \<longrightarrow> yielded g = []"
          using Yield lb Some by (simp add: then_do_def)
        ultimately show ?thesis
          by (intro exI[where x = "[u]"] exI[where x = "yielded g"] conjI)
      qed
    next
      case False
      then have lb: "loop_body env a v = ([], Some TypeError)"
        using assms by (cases v) (simp_all add: loop_body_def cmd_replace_def)
      have "yielded (x # g) = map JStr [] @ yielded (x # g)" by simp
      moreover have "unlogged (fst (for_repo_url env a level (x # g) fin))
          = runner_trace env a c []"
        using Yield lb by (simp add: runner_trace_Nil)
      moreover have "snd (for_repo_url env a level (x # g) fin) = None \<longrightarrow> yielded (x # g) = []"
        using Yield lb by simp
      ultimately show ?thesis
        by (intro exI[where x = "[]"] exI[where x = "yielded (x # g)"] conjI)
    qed
  qed
qed

lemma for_service_meta_runner:
  assumes "cmd a = Some c"
  shows "\<exists>us rest. concat (map (file_urls env) files) = map JStr us @ rest
      \<and> unlogged (fst (for_service_meta env a level (iter_service_metadata env files))) = runner_trace env a c us
      \<and> (snd (for_service_meta env a level (iter_service_metadata env files)) = None \<longrightarrow> rest = [])"
proof (induction files)
  case Nil
  show ?case
    by (rule exI[where x = "[]"], rule exI[where x = "[]"]) (simp add: runner_trace_Nil)
next
  case (Cons f files)
  then obtain us rest where IH: "concat (map (file_urls env) files) = map JStr us @ rest"
      "unlogged (fst (for_service_meta env a level (iter_service_metadata env files))) = runner_trace env a c us"
      "snd (for_service_meta env a level (iter_service_metadata env files)) = None \<longrightarrow> rest = []"
    by (elim exE conjE)
  show ?case
  proof (cases "json_load env f")
    case (Inl e)
    have "concat (map (file_urls env) (f # files)) = map JStr [] @ concat (map (file_urls env) (f # files))"
      by simp
    moreover have "unlogged (fst (for_service_meta env a level (iter_service_metadata env (f # files)))) = runner_trace env a c []"
      using Inl by (simp add: runner_trace_Nil)
    moreover have "snd (for_service_meta env a level (iter_service_metadata env (f # files))) = None
        \<longrightarrow> concat (map (file_urls env) (f # files)) = []"
      using Inl by simp
    ultimately show ?thesis
        by (intro exI[where x = "[]"] exI[where x = "concat (map (file_urls env) (f # files))"] conjI)
  next
    case (Inr service_meta)
    let ?g = "iter_repo_urls env service_meta"
    let ?r = "for_repo_url env a level (fst ?g) (snd ?g)"
    have fu: "file_urls env f = yielded (fst ?g)"
      using Inr by (simp add: file_urls_def)
    have run: "for_service_meta env a level (iter_service_metadata env (f # files)) =
        then_do ?r (for_service_meta env a level (iter_service_metadata env files))"
      using Inr by (simp add: Let_def)
    obtain vs rest' where G: "yielded (fst ?g) = map JStr vs @ rest'"
        "unlogged (fst ?r) = runner_trace env a c vs"
        "snd ?r = None \<longrightarrow> rest' = []"
      using for_repo_url_runner[OF assms, of "fst ?g" env level "snd ?g"] by (elim exE conjE)
    show ?thesis
    proof (cases "snd ?r")
      case None
      with G(3) have "rest' = []" by simp
      with G(1) fu IH(1) have "concat (map (file_urls env) (f # files)) = map JStr (vs @ us) @ rest"
        by simp
      moreover have "unlogged (fst (for_service_meta env a level (iter_service_metadata env (f # files))))
          = runner_trace env a c (vs @ us)"
        using None G(2) IH(2) by (simp add: run then_do_def unlogged_append runner_trace_append del: for_service_meta_files_Cons)
      moreover have "snd (for_service_meta env a level (iter_service_metadata env (f # files))) = None \<longrightarrow> rest = []"
        using None IH(3) by (simp add: run then_do_def del: for_service_meta_files_Cons)
      ultimately show ?thesis
        by (intro exI[where x = "vs @ us"] exI[where x = "rest"] conjI)
    next
      case (Some e)
      have "concat (map (file_urls env) (f # files))
          = map JStr vs @ (rest' @ concat (map (file_urls env) files))"
        using G(1) fu by simp
      moreover have "unlogged (fst (for_service_meta env a level (iter_service_metadata env (f # files))))
          = runner_trace env a c vs"
        using Some G(2) by (simp add: run then_do_def del: for_service_meta_files_Cons)
      moreover have "snd (for_service_meta env a level (iter_service_metadata env (f # files))) = None
          \<longrightarrow> rest' @ concat (map (file_urls env) files) = []"
        using Some by (simp add: run then_do_def del: for_service_meta_files_Cons)
      ultimately show ?thesis
        by (intro exI[where x = "vs"] exI[where x = "rest' @ concat (map (file_urls env) files)"] conjI)
    qed
  qed
qed

text \<open>
  Claim C6, as amended.  In a run with a command template, the URLs on which the Runner
  is called are an initial stretch of the concatenation, in the order of the input
  files, of what each file's metadata yields in the order of its entries: nothing is
  interleaved or reordered.  When the run ends without an uncaught exception they are
  the whole concatenation.
\<close>

theorem runner_follows_file_then_entry_order:
  assumes "cmd a = Some c"
  shows "\<exists>us rest. concat (map (file_urls env) (json_files a)) = map JStr us @ rest
      \<and> unlogged (fst (main env a)) = runner_trace env a c us
      \<and> (snd (main env a) = None \<longrightarrow> rest = [])"
  using for_service_meta_runner[OF assms] by (simp add: main_def)


theorem runner_follows_file_then_entry_order_witness:
  "cmd \<lparr>cmd = Some ''echo {}'', dry_run = False, quiet = True,
        json_files = [''foo.json'', ''bar.json'']\<rparr> = Some ''echo {}''
   \<and> concat (map (file_urls demo_env) [''foo.json'', ''bar.json''])
       = [JStr ''https://a.git'', JStr ''https://b.git'', JStr ''https://c.git'']
   \<and> unlogged (fst (main demo_env \<lparr>cmd = Some ''echo {}'', dry_run = False, quiet = True,
        json_files = [''foo.json'', ''bar.json'']\<rparr>))
       = [Run ''echo https://a.git'', Exited 0, Run ''echo https://b.git'', Exited 0,
          Run ''echo https://c.git'', Exited 0]"
proof -
  let ?a = "\<lparr>cmd = Some ''echo {}'', dry_run = False, quiet = True,
        json_files = [''foo.json'', ''bar.json'']\<rparr>"
  have h: "cmd ?a = Some ''echo {}''" by simp
  have r: "\<And>u. str_replace ''echo {}'' ''{}'' u = ''echo '' @ u"
    by (simp add: str_replace_miss str_replace_hit str_replace_Nil)
  have urls: "concat (map (file_urls demo_env) (json_files ?a))
       = map JStr [''https://a.git'', ''https://b.git'', ''https://c.git'']"
    by (simp add: file_urls_def demo_env_def demo_load_def json_load_def foo_meta_def
        bar_meta_def iter_repo_urls_def get_service_name_def)
  have fin: "snd (main demo_env ?a) = None"
    by (simp add: main_def demo_env_def demo_load_def json_load_def foo_meta_def
        bar_meta_def iter_repo_urls_def get_service_name_def then_do_def
        getLevelName_ERROR_def WARNING_def logger_warn_def loop_body_def cmd_replace_def
        r run_command_on_repo_def subprocess_run_def)
  from runner_follows_file_then_entry_order[OF h, of demo_env]
  obtain us rest where
      u: "concat (map (file_urls demo_env) (json_files ?a)) = map JStr us @ rest"
      and t: "unlogged (fst (main demo_env ?a)) = runner_trace demo_env ?a ''echo {}'' us"
      and e: "snd (main demo_env ?a) = None \<longrightarrow> rest = []"
    by (elim exE conjE)
  from e fin have "rest = []" by simp
  with u urls have "map JStr us = map JStr [''https://a.git'', ''https://b.git'', ''https://c.git'']"
    by simp
  then have "us = [''https://a.git'', ''https://b.git'', ''https://c.git'']"
    by (auto simp: map_eq_Cons_conv)
  with t have "unlogged (fst (main demo_env ?a))
       = [Run ''echo https://a.git'', Exited 0, Run ''echo https://b.git'', Exited 0,
          Run ''echo https://c.git'', Exited 0]"
    by (simp add: runner_trace_def r run_command_on_repo_def subprocess_run_def demo_env_def)
  with h urls show ?thesis by simp
qed


text \<open>
  Claim C6 as stated, for every list of input files, fails where the run is aborted:
  with \<open>broken.json\<close> before \<open>bar.json\<close> the Runner is never called, although
  \<open>bar.json\<close> holds two URLs.
\<close>

theorem runner_sequence_counterexample:
  "concat (map (file_urls demo_env) [''broken.json'', ''bar.json''])
       = map JStr [''https://b.git'', ''https://c.git'']
   \<and> main demo_env \<lparr>cmd = Some ''echo {}'', dry_run = False, quiet = False,
        json_files = [''broken.json'', ''bar.json'']\<rparr> = ([], Some JSONDecodeError)
   \<and> unlogged (fst (main demo_env \<lparr>cmd = Some ''echo {}'', dry_run = False, quiet = False,
        json_files = [''broken.json'', ''bar.json'']\<rparr>))
       \<noteq> runner_trace demo_env \<lparr>cmd = Some ''echo {}'', dry_run = False, quiet = False,
        json_files = [''broken.json'', ''bar.json'']\<rparr> ''echo {}''
           [''https://b.git'', ''https://c.git'']"
proof -
  have r: "\<And>u. str_replace ''echo {}'' ''{}'' u = ''echo '' @ u"
    by (simp add: str_replace_miss str_replace_hit str_replace_Nil)
  have urls: "concat (map (file_urls demo_env) [''broken.json'', ''bar.json''])
       = map JStr [''https://b.git'', ''https://c.git'']"
    by (simp add: file_urls_def demo_env_def demo_load_def json_load_def
        bar_meta_def iter_repo_urls_def get_service_name_def)
  have run: "main demo_env \<lparr>cmd = Some ''echo {}'', dry_run = False, quiet = False,
        json_files = [''broken.json'', ''bar.json'']\<rparr> = ([], Some JSONDecodeError)"
    by (simp add: main_def demo_env_def demo_load_def json_load_def)
  show ?thesis
    by (simp only: urls run)
       (simp add: runner_trace_def r run_command_on_repo_def subprocess_run_def demo_env_def)
qed

section \<open>The Runner\<close>

text \<open>No run starts a shell in a dry run, and every run waits for each child it starts.\<close>

lemma runs_append: "runs (xs @ ys) = runs xs @ runs ys"
  by (induction xs rule: runs.induct) simp_all

lemma waits_for_children_append:
  "waits_for_children xs \<Longrightarrow> waits_for_children ys \<Longrightarrow> waits_for_children (xs @ ys)"
  by (induction xs rule: waits_for_children.induct) simp_all

lemma runner_waits: "waits_for_children (fst (run_command_on_repo env c dry))"
  using runner_cases[of env c dry] by auto

lemma runner_dry_runs: "runs (fst (run_command_on_repo env c True)) = []"
  using runner_cases[of env c True] by auto

lemma loop_body_waits: "waits_for_children (fst (loop_body env a u))"
  by (simp add: loop_body_def runner_waits split: sum.splits)

lemma loop_body_dry_runs: "dry_run a \<Longrightarrow> runs (fst (loop_body env a u)) = []"
  by (simp add: loop_body_def runner_dry_runs split: sum.splits)

lemma then_do_waits:
  "waits_for_children (fst r) \<Longrightarrow> waits_for_children (fst k) \<Longrightarrow>
   waits_for_children (fst (then_do r k))"
  by (cases "snd r") (simp_all add: then_do_def waits_for_children_append)

lemma then_do_runs:
  "runs (fst r) = [] \<Longrightarrow> runs (fst k) = [] \<Longrightarrow> runs (fst (then_do r k)) = []"
  by (cases "snd r") (simp_all add: then_do_def runs_append)

lemma for_repo_url_waits: "waits_for_children (fst (for_repo_url env a level g fin))"
proof (induction g)
  case Nil
  show ?case by simp
next
  case (Cons x g)
  show ?case
  proof (cases x)
    case (Warn msg)
    have "waits_for_children (fst (logger_warn level msg, None :: py_error option))"
      by (simp add: logger_warn_def)
    from then_do_waits[OF this Cons] Warn show ?thesis by simp
  next
    case (Yield u)
    from then_do_waits[OF loop_body_waits Cons] Yield show ?thesis by simp
  qed
qed

lemma for_repo_url_dry_runs:
  assumes "dry_run a"
  shows "runs (fst (for_repo_url env a level g fin)) = []"
proof (induction g)
  case Nil
  show ?case by simp
next
  case (Cons x g)
  show ?case
  proof (cases x)
    case (Warn msg)
    have "runs (fst (logger_warn level msg, None :: py_error option)) = []"
      by (simp add: logger_warn_def)
    from then_do_runs[OF this Cons] Warn show ?thesis by simp
  next
    case (Yield u)
    from then_do_runs[OF loop_body_dry_runs[OF assms] Cons] Yield show ?thesis by simp
  qed
qed

lemma for_service_meta_waits:
  "waits_for_children (fst (for_service_meta env a level metas))"
proof (induction metas)
  case Nil
  show ?case by simp
next
  case (Cons m metas)
  show ?case
  proof (cases m)
    case (Inl e)
    then show ?thesis by simp
  next
    case (Inr service_meta)
    from then_do_waits[OF for_repo_url_waits Cons] Inr show ?thesis
      by (simp add: Let_def)
  qed
qed

lemma for_service_meta_dry_runs:
  assumes "dry_run a"
  shows "runs (fst (for_service_meta env a level metas)) = []"
proof (induction metas)
  case Nil
  show ?case by simp
next
  case (Cons m metas)
  show ?case
  proof (cases m)
    case (Inl e)
    then show ?thesis by simp
  next
    case (Inr service_meta)
    from then_do_runs[OF for_repo_url_dry_runs[OF assms] Cons] Inr show ?thesis
      by (simp add: Let_def)
  qed
qed

text \<open>
  The exit status of a child reaches nothing but the trace: two shells that start the
  same commands end the run in the same way, whatever the children return.
\<close>

lemma py_str_spawn: "py_str (env\<lparr>spawn := sp\<rparr>) v = py_str env v"
  by (cases v) (simp_all add: py_str_def)

lemma repo_loop_spawn:
  "repo_loop (env\<lparr>spawn := sp\<rparr>) name i entries = repo_loop env name i entries"
  by (induction entries arbitrary: i)
     (simp_all add: no_url_msg_def py_str_spawn Let_def split: sum.splits)

lemma iter_repo_urls_spawn:
  "iter_repo_urls (env\<lparr>spawn := sp\<rparr>) service_meta = iter_repo_urls env service_meta"
  by (simp add: iter_repo_urls_def repo_loop_spawn no_repos_msg_def py_str_spawn
      raise_StopIteration_def split: sum.splits)

lemma runner_spawn:
  assumes "\<forall>c. (sp c = CannotStart) = (spawn env c = CannotStart)"
  shows "snd (run_command_on_repo (env\<lparr>spawn := sp\<rparr>) c dry) = snd (run_command_on_repo env c dry)"
proof -
  have "(sp c = CannotStart) = (spawn env c = CannotStart)" using assms by simp
  then show ?thesis
    by (cases "sp c"; cases "spawn env c")
       (simp_all add: run_command_on_repo_def subprocess_run_def py_print_def)
qed

lemma loop_body_spawn:
  assumes "\<forall>c. (sp c = CannotStart) = (spawn env c = CannotStart)"
  shows "snd (loop_body (env\<lparr>spawn := sp\<rparr>) a u) = snd (loop_body env a u)"
  by (simp add: loop_body_def runner_spawn[OF assms] split: sum.splits)

lemma snd_then_do: "snd (then_do r k) = (case snd r of Some e \<Rightarrow> Some e | None \<Rightarrow> snd k)"
  by (simp add: then_do_def split: option.splits)

lemma for_repo_url_spawn:
  assumes "\<forall>c. (sp c = CannotStart) = (spawn env c = CannotStart)"
  shows "snd (for_repo_url (env\<lparr>spawn := sp\<rparr>) a level g fin) = snd (for_repo_url env a level g fin)"
proof (induction g)
  case Nil
  show ?case by simp
next
  case (Cons x g)
  then show ?case
    by (cases x) (simp_all add: snd_then_do loop_body_spawn[OF assms] split: option.splits)
qed

lemma for_service_meta_spawn:
  assumes "\<forall>c. (sp c = CannotStart) = (spawn env c = CannotStart)"
  shows "snd (for_service_meta (env\<lparr>spawn := sp\<rparr>) a level metas)
      = snd (for_service_meta env a level metas)"
proof (induction metas)
  case Nil
  show ?case by simp
next
  case (Cons m metas)
  then show ?case
    by (cases m)
       (simp_all add: snd_then_do Let_def iter_repo_urls_spawn for_repo_url_spawn[OF assms]
          split: option.splits)
qed

lemma iter_service_metadata_spawn:
  "iter_service_metadata (env\<lparr>spawn := sp\<rparr>) files = iter_service_metadata env files"
  by (simp add: iter_service_metadata_def json_load_def)

text \<open>
  Claim C7, as amended.  In a dry run \<open>run_command_on_repo\<close> never starts a process:
  it prints one line, \<open>would run\<close> followed by the command as \<open>repr\<close> writes it, or
  raises when standard output cannot be written.  Otherwise it calls \<open>subprocess.run\<close>
  once.  For a command without U+0000 on which the shell can be started, the shell is
  started exactly once and the call comes back only when the child has terminated,
  normally whatever the exit status; for any other command the call raises and no child
  is started.  In a whole run, a dry run starts no shell, every child that is started
  has terminated before anything else happens, and how the run ends is the same
  whatever exit status the children return.
\<close>

theorem run_command_on_repo_modes:
  "runs (fst (run_command_on_repo env c True)) = []
   \<and> (stdout_write env (''would run '' @ py_repr c) = None \<longrightarrow>
        run_command_on_repo env c True = ([Print (''would run '' @ py_repr c)], None))
   \<and> (stdout_write env (''would run '' @ py_repr c) = Some e \<longrightarrow>
        run_command_on_repo env c True = ([], Some e))
   \<and> (CHR 0x00 \<notin> set c \<and> spawn env c = Terminated rc \<longrightarrow>
        run_command_on_repo env c False = ([Run c, Exited rc], None))
   \<and> (CHR 0x00 \<in> set c \<longrightarrow> run_command_on_repo env c False = ([], Some ValueError))
   \<and> (CHR 0x00 \<notin> set c \<and> spawn env c = CannotStart \<longrightarrow>
        run_command_on_repo env c False = ([], Some OSError))
   \<and> (dry_run a \<longrightarrow> runs (fst (main env a)) = [])
   \<and> waits_for_children (fst (main env a))
   \<and> ((\<forall>c. (sp c = CannotStart) = (spawn env c = CannotStart)) \<longrightarrow>
        snd (main (env\<lparr>spawn := sp\<rparr>) a) = snd (main env a))"
proof -
  have dry: "dry_run a \<longrightarrow> runs (fst (main env a)) = []"
    by (simp add: main_def for_service_meta_dry_runs)
  have waits: "waits_for_children (fst (main env a))"
    by (simp add: main_def for_service_meta_waits)
  have blind: "(\<forall>c. (sp c = CannotStart) = (spawn env c = CannotStart)) \<longrightarrow>
        snd (main (env\<lparr>spawn := sp\<rparr>) a) = snd (main env a)"
    by (simp add: main_def iter_service_metadata_spawn for_service_meta_spawn)
  have call: "(stdout_write env (''would run '' @ py_repr c) = None \<longrightarrow>
        run_command_on_repo env c True = ([Print (''would run '' @ py_repr c)], None))
   \<and> (stdout_write env (''would run '' @ py_repr c) = Some e \<longrightarrow>
        run_command_on_repo env c True = ([], Some e))
   \<and> (CHR 0x00 \<notin> set c \<and> spawn env c = Terminated rc \<longrightarrow>
        run_command_on_repo env c False = ([Run c, Exited rc], None))
   \<and> (CHR 0x00 \<in> set c \<longrightarrow> run_command_on_repo env c False = ([], Some ValueError))
   \<and> (CHR 0x00 \<notin> set c \<and> spawn env c = CannotStart \<longrightarrow>
        run_command_on_repo env c False = ([], Some OSError))"
    by (simp add: run_command_on_repo_def py_print_def subprocess_run_def)
  from runner_dry_runs[of env c] call dry waits blind show ?thesis by simp
qed

theorem run_command_on_repo_modes_witness:
  "run_command_on_repo demo_env ''echo https://a.git'' True
     = ([Print (''would run '' @ [CHR 0x27] @ ''echo https://a.git'' @ [CHR 0x27])], None)
   \<and> run_command_on_repo demo_env ''echo https://a.git'' False
     = ([Run ''echo https://a.git'', Exited 0], None)
   \<and> run_command_on_repo (demo_env\<lparr>spawn := (\<lambda>c. CannotStart)\<rparr>) ''echo https://a.git'' False
     = ([], Some OSError)
   \<and> runs (fst (main demo_env \<lparr>cmd = Some ''echo {}'', dry_run = True, quiet = False,
        json_files = [''foo.json'', ''bar.json'']\<rparr>)) = []
   \<and> snd (main (demo_env\<lparr>spawn := (\<lambda>c. Terminated 1)\<rparr>)
        \<lparr>cmd = Some ''echo {}'', dry_run = False, quiet = False,
         json_files = [''foo.json'', ''bar.json'']\<rparr>) = None"
proof -
  let ?c = "''echo https://a.git''"
  let ?dry = "\<lparr>cmd = Some ''echo {}'', dry_run = True, quiet = False,
        json_files = [''foo.json'', ''bar.json'']\<rparr>"
  let ?a = "\<lparr>cmd = Some ''echo {}'', dry_run = False, quiet = False,
        json_files = [''foo.json'', ''bar.json'']\<rparr>"
  have q: "py_repr ?c = [CHR 0x27] @ ?c @ [CHR 0x27]"
    by (simp add: py_repr_def repr_quote_def repr_char_def printable_def Let_def)
  have r: "\<And>u. str_replace ''echo {}'' ''{}'' u = ''echo '' @ u"
    by (simp add: str_replace_miss str_replace_hit str_replace_Nil)
  have fin: "snd (main demo_env ?a) = None"
    by (simp add: main_def demo_env_def demo_load_def json_load_def foo_meta_def
        bar_meta_def iter_repo_urls_def get_service_name_def then_do_def
        WARNING_def logger_warn_def loop_body_def cmd_replace_def
        r run_command_on_repo_def subprocess_run_def)
  have w: "stdout_write demo_env (''would run '' @ py_repr ?c) = None"
    by (simp add: demo_env_def)
  have n: "CHR 0x00 \<notin> set ?c" by simp
  have t: "spawn demo_env ?c = Terminated 0" by (simp add: demo_env_def)
  have s: "\<forall>c. ((\<lambda>c. Terminated 1) c = CannotStart) = (spawn demo_env c = CannotStart)"
    by (simp add: demo_env_def)
  have cs: "spawn (demo_env\<lparr>spawn := (\<lambda>c. CannotStart)\<rparr>) ?c = CannotStart" by simp
  show ?thesis
    using q fin w n t s cs
      run_command_on_repo_modes[of demo_env ?c OSError 0 ?dry "\<lambda>c. Terminated 1"]
      run_command_on_repo_modes[of demo_env ?c OSError 0 ?a "\<lambda>c. Terminated 1"]
      run_command_on_repo_modes[of "demo_env\<lparr>spawn := (\<lambda>c. CannotStart)\<rparr>" ?c OSError 0 ?a
        "\<lambda>c. CannotStart"]
    by simp
qed

text \<open>
  Claim C7 as stated, for every command string, fails for a command that holds U+0000:
  \<open>subprocess.run\<close> raises \<open>ValueError\<close> and the shell is not started at all.  Such a
  command arises from a URL of a metadata file.
\<close>

theorem run_command_on_repo_counterexample:
  "run_command_on_repo demo_env [CHR ''e'', CHR ''c'', CHR ''h'', CHR ''o'', CHR '' '',
       CHR ''a'', CHR 0x00] False = ([], Some ValueError)
   \<and> runs (fst (run_command_on_repo demo_env [CHR ''e'', CHR ''c'', CHR ''h'', CHR ''o'',
       CHR '' '', CHR ''a'', CHR 0x00] False)) = []
   \<and> main demo_env \<lparr>cmd = Some ''echo {}'', dry_run = False, quiet = False,
        json_files = [''nul.json'', ''bar.json'']\<rparr> = ([], Some ValueError)"
proof -
  have r: "\<And>u. str_replace ''echo {}'' ''{}'' u = ''echo '' @ u"
    by (simp add: str_replace_miss str_replace_hit str_replace_Nil)
  show ?thesis
    by (simp add: main_def demo_env_def demo_load_def json_load_def nul_meta_def
        iter_repo_urls_def get_service_name_def then_do_def WARNING_def
        loop_body_def cmd_replace_def r run_command_on_repo_def subprocess_run_def)
qed

end
